theory Spec2Isabelle
  imports Complex_Main "HOL-Library.Word"
begin

section \<open>Mapping the Allen Mouse 3D Atlas to individual sections\<close>

text \<open>
  A shallow embedding of the notebook \<^verbatim>\<open>mapping_atlas_by_voxel.ipynb\<close>.
  Python floats are idealised as real numbers; Python integers are \<^typ>\<open>int\<close>, array
  indices are \<^typ>\<open>nat\<close>; a numpy array of rank two is a list of rows; an exception is
  the left summand of a sum type.
\<close>

subsection \<open>Values\<close>

datatype py_error = NameError | KeyError | IndexError | ZeroDivisionError | ValueError | IOError

type_synonym point = "real \<times> real \<times> real"

type_synonym voxel = "nat \<times> nat \<times> nat"

type_synonym pixel = "8 word \<times> 8 word \<times> 8 word"

type_synonym image = "pixel list list"

type_synonym 'a array2 = "'a list list"

type_synonym 'a array3 = "'a list list list"

subsection \<open>numpy helpers\<close>

text \<open>\<^verbatim>\<open>np.round\<close> rounds to the nearest integer, a tie to the even neighbour.\<close>

definition np_round :: "real \<Rightarrow> int" where
  "np_round x =
     (let f = \<lfloor>x\<rfloor>; d = x - of_int f
      in if d < 1 / 2 then f else if 1 / 2 < d then f + 1 else if even f then f else f + 1)"

text \<open>\<^verbatim>\<open>np.where(m)\<close> on a rank-three mask: the indices of the true entries, in row-major order.\<close>

definition where3 :: "bool array3 \<Rightarrow> voxel list" where
  "where3 m =
     concat (map (\<lambda>i. concat (map (\<lambda>j. map (\<lambda>k. (i, j, k))
        (filter (\<lambda>k. m ! i ! j ! k) [0..<length (m ! i ! j)]))
        [0..<length (m ! i)]))
        [0..<length m])"

text \<open>\<^verbatim>\<open>np.where(a == 1)\<close> on a rank-two array: (row, column) pairs in row-major order.\<close>

definition where_eq1 :: "int array2 \<Rightarrow> (nat \<times> nat) list" where
  "where_eq1 a =
     concat (map (\<lambda>r. map (\<lambda>c. (r, c)) (filter (\<lambda>c. a ! r ! c = 1) [0..<length (a ! r)]))
        [0..<length a])"

text \<open>\<^verbatim>\<open>np.where(v == n)\<close> on a vector.\<close>

definition where_eq :: "int list \<Rightarrow> int \<Rightarrow> nat list" where
  "where_eq v n = filter (\<lambda>i. v ! i = n) [0..<length v]"

text \<open>\<^verbatim>\<open>np.unique\<close>: the distinct values, ascending.\<close>

definition np_unique :: "'a::linorder list \<Rightarrow> 'a list" where
  "np_unique xs = sort (remdups xs)"

text \<open>\<^verbatim>\<open>a.astype(int)\<close> on a boolean array and the truth value numpy gives a number.\<close>

definition astype_int :: "bool array2 \<Rightarrow> int array2" where
  "astype_int m = map (map (\<lambda>b. if b then 1 else 0)) m"

definition as_bool :: "'a::zero array2 \<Rightarrow> bool array2" where
  "as_bool a = map (map (\<lambda>v. v \<noteq> 0)) a"

text \<open>
  The index range of the Python slice \<^verbatim>\<open>a:b\<close> on an axis of length \<open>n\<close>: a negative
  bound counts from the end, and both bounds are clipped to the axis.
\<close>

definition slice_bound :: "nat \<Rightarrow> int \<Rightarrow> nat" where
  "slice_bound n i = (if i < 0 then nat (max 0 (int n + i)) else min (nat i) n)"

definition in_slice :: "nat \<Rightarrow> int \<Rightarrow> int \<Rightarrow> nat \<Rightarrow> bool" where
  "in_slice n a b k \<longleftrightarrow> slice_bound n a \<le> k \<and> k < slice_bound n b"

subsection \<open>Structure ids for the regions of interest (cells 14 and 17)\<close>

fun get_structure_ids_loop :: "(string \<rightharpoonup> int) \<Rightarrow> int list \<Rightarrow> string list \<Rightarrow> py_error + int list" where
  "get_structure_ids_loop acrnm_map regions [] = Inr regions"
| "get_structure_ids_loop acrnm_map regions (acrnm # acrnms) =
     (case acrnm_map acrnm of
        None \<Rightarrow> Inl KeyError
      | Some i \<Rightarrow> get_structure_ids_loop acrnm_map (regions @ [i]) acrnms)"

definition get_structure_ids :: "(string \<rightharpoonup> int) \<Rightarrow> string list \<Rightarrow> py_error + int list" where
  "get_structure_ids acrnm_map acrnms = get_structure_ids_loop acrnm_map [] acrnms"

subsection \<open>Image scale (cell 24)\<close>

text \<open>\<open>resolution\<close> is the physical size of a pixel of the full-resolution section image.\<close>

definition twoD_of :: "real \<Rightarrow> py_error + real" where
  "twoD_of resolution = (if resolution = 0 then Inl ZeroDivisionError else Inr (1 / resolution))"

definition size_of :: "real \<Rightarrow> real" where
  "size_of twoD = 25 * twoD / 2 ^ 4"

subsection \<open>Transform chain and section selection (cells 28 and 34)\<close>

definition scale_point :: "real \<Rightarrow> voxel \<Rightarrow> point" where
  "scale_point k p = (case p of (x, y, z) \<Rightarrow> (real x * k, real y * k, real z * k))"

text \<open>
  \<^verbatim>\<open>dfp = np.array(list(map(dfmfld_transform.TransformPoint, points*25)))\<close> and
  \<^verbatim>\<open>tfp = np.array(list(map(aff_trans.TransformPoint, dfp)))\<close>.
\<close>

definition transform_points :: "(point \<Rightarrow> point) \<Rightarrow> (point \<Rightarrow> point) \<Rightarrow> voxel list \<Rightarrow> point list" where
  "transform_points dfmfld_transform aff_trans points =
     (let dfp = map dfmfld_transform (map (scale_point 25) points);
          tfp = map aff_trans dfp
      in tfp)"

text \<open>
  \<^verbatim>\<open>sections = np.round(tfp[:,2]/100)\<close>. An empty list of points makes \<^verbatim>\<open>tfp\<close> an
  array of shape \<open>(0,)\<close>, on which the two-index read raises.
\<close>

definition sections_of :: "point list \<Rightarrow> py_error + int list" where
  "sections_of tfp =
     (if tfp = [] then Inl IndexError
      else Inr (map (\<lambda>p. case p of (x, y, z) \<Rightarrow> np_round (z / 100)) tfp))"

definition select_section :: "int \<Rightarrow> point list \<Rightarrow> py_error + nat list" where
  "select_section section_no tfp =
     (case sections_of tfp of
        Inl e \<Rightarrow> Inl e
      | Inr sections \<Rightarrow> Inr (where_eq sections section_no))"

text \<open>
  \<^verbatim>\<open>mapped_points = tfp[loc,:2]*twoD/(2**4)\<close>, after \<^verbatim>\<open>squeeze\<close> and
  \<^verbatim>\<open>reshape((-1,2))\<close> one (x, y) pair for each selected row, also when one row or
  none is selected.
\<close>

definition take_rows :: "'a list \<Rightarrow> nat list \<Rightarrow> py_error + 'a list" where
  "take_rows xs loc = (if \<forall>i \<in> set loc. i < length xs then Inr (map (\<lambda>i. xs ! i) loc) else Inl IndexError)"

definition map_point :: "real \<Rightarrow> point \<Rightarrow> real \<times> real" where
  "map_point twoD p = (case p of (x, y, z) \<Rightarrow> (x * twoD / 2 ^ 4, y * twoD / 2 ^ 4))"

definition mapped_points_of :: "real \<Rightarrow> point list \<Rightarrow> nat list \<Rightarrow> py_error + (real \<times> real) list" where
  "mapped_points_of twoD tfp loc =
     (if tfp = [] then Inl IndexError
      else case take_rows tfp loc of
             Inl e \<Rightarrow> Inl e
           | Inr rows \<Rightarrow> Inr (map (map_point twoD) rows))"

subsection \<open>Binary morphology (scipy.ndimage, default structuring element)\<close>

text \<open>
  The library calls of the notebook leave every option at its default: the structuring
  element is the cross of the four direct neighbours and the centre, and erosion and
  dilation read \<open>border_value = 0\<close> outside the array.
\<close>

definition cell_at :: "bool \<Rightarrow> bool array2 \<Rightarrow> int \<Rightarrow> int \<Rightarrow> bool" where
  "cell_at border m r c =
     (if 0 \<le> r \<and> r < int (length m) \<and> 0 \<le> c \<and> c < int (length (m ! nat r))
      then m ! nat r ! nat c else border)"

definition erode_at :: "bool \<Rightarrow> bool array2 \<Rightarrow> int \<Rightarrow> int \<Rightarrow> bool" where
  "erode_at border m r c \<longleftrightarrow>
     cell_at border m r c \<and> cell_at border m (r - 1) c \<and> cell_at border m (r + 1) c \<and>
     cell_at border m r (c - 1) \<and> cell_at border m r (c + 1)"

definition dilate_at :: "bool \<Rightarrow> bool array2 \<Rightarrow> int \<Rightarrow> int \<Rightarrow> bool" where
  "dilate_at border m r c \<longleftrightarrow>
     cell_at border m r c \<or> cell_at border m (r - 1) c \<or> cell_at border m (r + 1) c \<or>
     cell_at border m r (c - 1) \<or> cell_at border m r (c + 1)"

text \<open>An array of the shape of \<open>m\<close> whose entry at (r, c) is \<open>f r c\<close>.\<close>

definition index_map :: "(nat \<Rightarrow> nat \<Rightarrow> 'b) \<Rightarrow> 'a array2 \<Rightarrow> 'b array2" where
  "index_map f m = map (\<lambda>r. map (\<lambda>c. f r c) [0..<length (m ! r)]) [0..<length m]"

definition binary_erosion :: "bool array2 \<Rightarrow> bool array2" where
  "binary_erosion m = index_map (\<lambda>r c. erode_at False m (int r) (int c)) m"

definition binary_dilation :: "bool array2 \<Rightarrow> bool array2" where
  "binary_dilation m = index_map (\<lambda>r c. dilate_at False m (int r) (int c)) m"

definition binary_closing :: "bool array2 \<Rightarrow> bool array2" where
  "binary_closing m = binary_erosion (binary_dilation m)"

text \<open>
  \<^verbatim>\<open>binary_fill_holes\<close> dilates the empty array inside the complement of its input, with
  \<open>border_value = 1\<close>, until nothing changes, and returns the complement of the result.
\<close>

definition flood_step :: "bool array2 \<Rightarrow> bool array2 \<Rightarrow> bool array2" where
  "flood_step msk cur =
     index_map (\<lambda>r c. if msk ! r ! c then dilate_at True cur (int r) (int c) else cur ! r ! c) cur"

definition falses :: "bool array2 \<Rightarrow> nat" where
  "falses m = sum_list (map (\<lambda>row. length (filter Not row)) m)"

lemma falses_row:
  "length ys = length xs \<Longrightarrow> (\<forall>i < length xs. xs ! i \<longrightarrow> ys ! i) \<Longrightarrow>
   length (filter Not ys) \<le> length (filter Not xs) \<and>
   (ys \<noteq> xs \<longrightarrow> length (filter Not ys) < length (filter Not xs))"
proof (induction ys xs rule: list_induct2)
  case Nil
  then show ?case by simp
next
  case (Cons y ys x xs)
  have rest: "\<forall>i < length xs. xs ! i \<longrightarrow> ys ! i"
    using Cons.prems by fastforce
  have first: "x \<longrightarrow> y"
    using Cons.prems by fastforce
  from Cons.IH [OF rest] first show ?case
    by auto
qed

lemma falses_matrix:
  "length n = length m \<Longrightarrow>
   (\<forall>r < length m. length (n ! r) = length (m ! r) \<and>
      (\<forall>c < length (m ! r). m ! r ! c \<longrightarrow> n ! r ! c)) \<Longrightarrow>
   falses n \<le> falses m \<and> (n \<noteq> m \<longrightarrow> falses n < falses m)"
proof (induction n m rule: list_induct2)
  case Nil
  then show ?case by (simp add: falses_def)
next
  case (Cons y ys x xs)
  have rest: "\<forall>r < length xs. length (ys ! r) = length (xs ! r) \<and>
      (\<forall>c < length (xs ! r). xs ! r ! c \<longrightarrow> ys ! r ! c)"
    using Cons.prems by fastforce
  have first: "length y = length x \<and> (\<forall>c < length x. x ! c \<longrightarrow> y ! c)"
    using Cons.prems by fastforce
  from falses_row [of y x] first
  have row: "length (filter Not y) \<le> length (filter Not x) \<and>
      (y \<noteq> x \<longrightarrow> length (filter Not y) < length (filter Not x))"
    by blast
  from Cons.IH [OF rest] row show ?case
    by (auto simp: falses_def)
qed

lemma index_map_shape:
  "length (index_map f m) = length m"
  "r < length m \<Longrightarrow> length (index_map f m ! r) = length (m ! r)"
  "r < length m \<Longrightarrow> c < length (m ! r) \<Longrightarrow> index_map f m ! r ! c = f r c"
  by (simp_all add: index_map_def)

lemma cell_at_in:
  "r < length m \<Longrightarrow> c < length (m ! r) \<Longrightarrow> cell_at b m (int r) (int c) = m ! r ! c"
  by (simp add: cell_at_def)

lemma flood_step_decreases:
  assumes "flood_step msk cur \<noteq> cur"
  shows "falses (flood_step msk cur) < falses cur"
proof -
  have "\<forall>r < length cur. length (flood_step msk cur ! r) = length (cur ! r) \<and>
      (\<forall>c < length (cur ! r). cur ! r ! c \<longrightarrow> flood_step msk cur ! r ! c)"
    by (simp add: flood_step_def index_map_shape dilate_at_def cell_at_in)
  moreover have "length (flood_step msk cur) = length cur"
    by (simp add: flood_step_def index_map_shape)
  ultimately show ?thesis
    using falses_matrix [of "flood_step msk cur" cur] assms by blast
qed

function flood :: "bool array2 \<Rightarrow> bool array2 \<Rightarrow> bool array2" where
  "flood msk cur =
     (let nxt = flood_step msk cur in if nxt = cur then cur else flood msk nxt)"
  by pat_completeness auto
termination
  by (relation "measure (\<lambda>(msk, cur). falses cur)") (auto simp: flood_step_decreases)

declare flood.simps [simp del]

definition binary_fill_holes :: "bool array2 \<Rightarrow> bool array2" where
  "binary_fill_holes input =
     (let msk = map (map Not) input;
          tmp = map (map (\<lambda>_. False)) input;
          output = flood msk tmp
      in map (map Not) output)"

subsection \<open>The notebook's globals\<close>

type_synonym rgba = "8 word \<times> 8 word \<times> 8 word \<times> 8 word"

datatype picture = RGB image | RGBA "rgba array2"

type_synonym files = "string \<rightharpoonup> picture"

text \<open>
  What the cells read from the atlas, registration and image providers and from the
  libraries, by the names the notebook gives them. \<open>regions\<close> is the name cells 30 and 34
  read; no cell of the notebook assigns it.
\<close>

record notebook =
  make_structure_mask :: "int \<Rightarrow> bool array3"
  dfmfld_transform :: "point \<Rightarrow> point"
  aff_trans :: "point \<Rightarrow> point"
  anno :: "int array3"
  ancestor_ids :: "int \<rightharpoonup> int list"
  colormap :: "int \<rightharpoonup> int \<times> int \<times> int"
  section_no :: int
  twoD :: real
  arr :: image
  regions :: "int list"
  alpha_composite :: "rgba array2 \<Rightarrow> rgba array2 \<Rightarrow> rgba array2"

text \<open>The variables the structure loop of cell 34 reads and writes.\<close>

record state =
  tfp :: "point list"
  loc :: "nat list"
  area_image :: image
  boundary_image :: image

subsection \<open>Structures in the section (cells 28 and 30)\<close>

definition find_structures :: "notebook \<Rightarrow> py_error + point list \<times> nat list \<times> int list" where
  "find_structures nb =
     (let root_mask = make_structure_mask nb 997;
          root_points = where3 root_mask;
          tfp0 = transform_points (dfmfld_transform nb) (aff_trans nb) root_points
      in case select_section (section_no nb) tfp0 of
           Inl e \<Rightarrow> Inl e
         | Inr loc0 \<Rightarrow>
             (case take_rows root_points loc0 of
                Inl e \<Rightarrow> Inl e
              | Inr sel \<Rightarrow>
                  (let anno_loc = np_unique (map fst sel)
                   in case take_rows (anno nb) anno_loc of
                        Inl e \<Rightarrow> Inl e
                      | Inr slabs \<Rightarrow>
                          Inr (tfp0, loc0, drop 1 (np_unique (concat (concat slabs)))))))"

fun add_regions :: "int list \<Rightarrow> int list \<Rightarrow> int list" where
  "add_regions [] structures_in_section = structures_in_section"
| "add_regions (region # rest) structures_in_section =
     add_regions rest
       (if region \<notin> set structures_in_section then structures_in_section @ [region]
        else structures_in_section)"

fun ancestor_counts :: "(int \<rightharpoonup> int list) \<Rightarrow> int list \<Rightarrow> py_error + nat list" where
  "ancestor_counts tree [] = Inr []"
| "ancestor_counts tree (s # ss) =
     (case tree s of
        None \<Rightarrow> Inl KeyError
      | Some chain \<Rightarrow>
          (case ancestor_counts tree ss of
             Inl e \<Rightarrow> Inl e
           | Inr ns \<Rightarrow> Inr (length chain # ns)))"

text \<open>
  \<^verbatim>\<open>np.argsort\<close>: the indices in ascending order of their keys. numpy does not fix
  the order of indices with equal keys; here they keep their index order, and no property
  below depends on it.
\<close>

definition argsort :: "nat list \<Rightarrow> nat list" where
  "argsort keys = sort_key (\<lambda>i. keys ! i) [0..<length keys]"

text \<open>\<^verbatim>\<open>structures_in_section[sorted_indx]\<close>, the sequence the structure loop runs over.\<close>

definition sorted_structures :: "notebook \<Rightarrow> int list \<Rightarrow> py_error + int list" where
  "sorted_structures nb structures_in_section =
     (case ancestor_counts (ancestor_ids nb) structures_in_section of
        Inl e \<Rightarrow> Inl e
      | Inr counts \<Rightarrow>
          (let sorted_indx = argsort counts
           in Inr (map (\<lambda>i. structures_in_section ! i) sorted_indx)))"

subsection \<open>The structure loop (cell 34)\<close>

text \<open>
  For a structure other than the root the points of its mask are transformed and the
  section is selected; for the root the values of \<open>tfp\<close> and \<open>loc\<close> left by the previous
  cell or iteration are used.
\<close>

definition select_struct :: "notebook \<Rightarrow> state \<Rightarrow> int \<Rightarrow> py_error + state" where
  "select_struct nb st struct =
     (if struct \<noteq> 997 then
        (let msk = make_structure_mask nb struct;
             points = where3 msk;
             tfp1 = transform_points (dfmfld_transform nb) (aff_trans nb) points
         in case select_section (section_no nb) tfp1 of
              Inl e \<Rightarrow> Inl e
            | Inr loc1 \<Rightarrow> Inr (st\<lparr>tfp := tfp1, loc := loc1\<rparr>))
      else Inr st)"

definition shape1 :: "'a array2 \<Rightarrow> nat" where
  "shape1 a = (case a of [] \<Rightarrow> 0 | row # _ \<Rightarrow> length row)"

definition blank_canvas :: "image \<Rightarrow> real array2" where
  "blank_canvas a = replicate (length a) (replicate (shape1 a) 0)"

text \<open>\<^verbatim>\<open>blank[y0:y1, x0:x1] = 1\<close>.\<close>

definition paint_footprint :: "real array2 \<Rightarrow> int \<times> int \<Rightarrow> int \<times> int \<Rightarrow> real array2" where
  "paint_footprint blank p q =
     (case (p, q) of ((x0, y0), (x1, y1)) \<Rightarrow>
        index_map (\<lambda>r c. if in_slice (length blank) y0 y1 r \<and> in_slice (length (blank ! r)) x0 x1 c
                          then 1 else blank ! r ! c) blank)"

definition rasterize :: "notebook \<Rightarrow> state \<Rightarrow> py_error + int array2" where
  "rasterize nb st =
     (case mapped_points_of (twoD nb) (tfp st) (loc st) of
        Inl e \<Rightarrow> Inl e
      | Inr mapped_points \<Rightarrow>
          (let next_points = map (\<lambda>(x, y). (x + size_of (twoD nb), y + size_of (twoD nb))) mapped_points;
               rounded_mapped_points = map (\<lambda>(x, y). (np_round x, np_round y)) mapped_points;
               rounded_next_points = map (\<lambda>(x, y). (np_round x, np_round y)) next_points;
               blank = fold (\<lambda>(p, q) b. paint_footprint b p q)
                         (zip rounded_mapped_points rounded_next_points) (blank_canvas (arr nb));
               area = astype_int (binary_closing (as_bool (astype_int (binary_fill_holes (as_bool blank)))))
           in Inr area))"

text \<open>\<^verbatim>\<open>img[:,:,i][idx] = v[i]\<close> for the three channels: the pixels at \<open>idx\<close> become \<open>v\<close>.\<close>

definition assign_at :: "'a array2 \<Rightarrow> (nat \<times> nat) list \<Rightarrow> 'a \<Rightarrow> 'a array2" where
  "assign_at img idx v = fold (\<lambda>(r, c) im. im[r := (im ! r)[c := v]]) idx img"

definition to_uint8 :: "int \<times> int \<times> int \<Rightarrow> pixel" where
  "to_uint8 color = (case color of (r, g, b) \<Rightarrow> (word_of_int r, word_of_int g, word_of_int b))"

definition paint_area :: "notebook \<Rightarrow> state \<Rightarrow> int \<Rightarrow> int array2 \<Rightarrow> py_error + state" where
  "paint_area nb st struct area =
     (case colormap nb struct of
        None \<Rightarrow> Inl KeyError
      | Some color \<Rightarrow>
          (let area_mask = where_eq1 area
           in Inr (st\<lparr>area_image := assign_at (area_image st) area_mask (to_uint8 color)\<rparr>)))"

definition inner_of :: "int array2 \<Rightarrow> bool array2" where
  "inner_of area = fold (\<lambda>i inner. binary_erosion inner) [0..<6] (as_bool area)"

definition boundary_of :: "int array2 \<Rightarrow> int array2" where
  "boundary_of area = map2 (map2 (-)) area (astype_int (inner_of area))"

definition draw_boundary :: "notebook \<Rightarrow> state \<Rightarrow> int \<Rightarrow> int array2 \<Rightarrow> state" where
  "draw_boundary nb st struct area =
     (if struct \<in> set (regions nb) then
        (let boundary_mask = where_eq1 (boundary_of area)
         in st\<lparr>boundary_image := assign_at (boundary_image st) boundary_mask (0, 0, 255)\<rparr>)
      else st)"

definition area_of :: "notebook \<Rightarrow> state \<Rightarrow> int \<Rightarrow> py_error + int array2" where
  "area_of nb st struct =
     (case select_struct nb st struct of
        Inl e \<Rightarrow> Inl e
      | Inr st1 \<Rightarrow> rasterize nb st1)"

definition iteration :: "notebook \<Rightarrow> state \<Rightarrow> int \<Rightarrow> py_error + state" where
  "iteration nb st struct =
     (case select_struct nb st struct of
        Inl e \<Rightarrow> Inl e
      | Inr st1 \<Rightarrow>
          (case rasterize nb st1 of
             Inl e \<Rightarrow> Inl e
           | Inr area \<Rightarrow>
               (case paint_area nb st1 struct area of
                  Inl e \<Rightarrow> Inl e
                | Inr st2 \<Rightarrow> Inr (draw_boundary nb st2 struct area))))"

fun structure_loop :: "notebook \<Rightarrow> state \<Rightarrow> int list \<Rightarrow> py_error + state" where
  "structure_loop nb st [] = Inr st"
| "structure_loop nb st (struct # rest) =
     (case iteration nb st struct of
        Inl e \<Rightarrow> Inl e
      | Inr st' \<Rightarrow> structure_loop nb st' rest)"

text \<open>The value of \<open>area\<close> in each iteration of the loop, in the order of the iterations.\<close>

fun loop_areas :: "notebook \<Rightarrow> state \<Rightarrow> int list \<Rightarrow> int array2 list" where
  "loop_areas nb st [] = []"
| "loop_areas nb st (struct # rest) =
     (case (area_of nb st struct, iteration nb st struct) of
        (Inr area, Inr st') \<Rightarrow> area # loop_areas nb st' rest
      | _ \<Rightarrow> [])"

subsection \<open>Saving the images (end of cell 34)\<close>

definition area_png :: string where
  "area_png = ''./100141219/area.png''"

definition boundary_png :: string where
  "boundary_png = ''./100141219/boundary.png''"

definition color_composite_png :: string where
  "color_composite_png = ''./100141219/color_composite.png''"

definition section_jpg :: string where
  "section_jpg = ''./100141219/100141219.jpg''"

definition putalpha :: "image \<Rightarrow> 8 word \<Rightarrow> rgba array2" where
  "putalpha img a = map (map (\<lambda>(r, g, b). (r, g, b, a))) img"

text \<open>
  The three saves follow one another. \<open>writable\<close> says which paths the file system
  accepts; a save to another path raises and leaves the files as they are at that moment.
  The composite is made from the section image and the area image read back from their
  files; \<^verbatim>\<open>Image.alpha_composite\<close> raises when their sizes differ.
  The result is the files after the cell and the exception, if one was raised.
\<close>

definition save_outputs ::
  "notebook \<Rightarrow> (string \<Rightarrow> bool) \<Rightarrow> state \<Rightarrow> files \<Rightarrow> files \<times> py_error option" where
  "save_outputs nb writable st fs =
     (if \<not> writable area_png then (fs, Some IOError)
      else
        (let fs1 = fs(area_png \<mapsto> RGB (area_image st))
         in if \<not> writable boundary_png then (fs1, Some IOError)
            else
              (let fs2 = fs1(boundary_png \<mapsto> RGB (boundary_image st))
               in case (fs2 section_jpg, fs2 area_png) of
                    (Some (RGB cbg), Some (RGB fg)) \<Rightarrow>
                      if map length cbg \<noteq> map length fg then (fs2, Some ValueError)
                      else
                        (let comp = alpha_composite nb (putalpha cbg 255) (putalpha fg 80)
                         in if \<not> writable color_composite_png then (fs2, Some IOError)
                            else (fs2(color_composite_png \<mapsto> RGBA comp), None))
                  | _ \<Rightarrow> (fs2, Some IOError))))"

text \<open>Cells 28 to 34 up to the end of the structure loop.\<close>

definition map_structures :: "notebook \<Rightarrow> py_error + state" where
  "map_structures nb =
     (case find_structures nb of
        Inl e \<Rightarrow> Inl e
      | Inr (tfp0, loc0, structures_in_section) \<Rightarrow>
          (case sorted_structures nb (add_regions (regions nb) structures_in_section) of
             Inl e \<Rightarrow> Inl e
           | Inr order \<Rightarrow>
               structure_loop nb
                 \<lparr>tfp = tfp0, loc = loc0, area_image = arr nb, boundary_image = arr nb\<rparr> order))"

definition run :: "notebook \<Rightarrow> (string \<Rightarrow> bool) \<Rightarrow> files \<Rightarrow> files \<times> py_error option" where
  "run nb writable fs =
     (case map_structures nb of
        Inl e \<Rightarrow> (fs, Some e)
      | Inr st \<Rightarrow> save_outputs nb writable st fs)"

subsection \<open>The names of the region lists (cells 17 and 30)\<close>

text \<open>
  Cell 17 binds the name \<open>regions_of_interest\<close>; cell 30 reads the name \<open>regions\<close>.
  A namespace maps the names bound so far to their values; reading an unbound name raises.
\<close>

type_synonym namespace = "string \<rightharpoonup> int list"

definition cell_17 :: "(string \<rightharpoonup> int) \<Rightarrow> namespace \<Rightarrow> py_error + namespace" where
  "cell_17 acrnm_map ns =
     (case get_structure_ids acrnm_map [''GENd'', ''GENv'', ''LP'', ''POL'', ''APN''] of
        Inl e \<Rightarrow> Inl e
      | Inr ids \<Rightarrow> Inr (ns(''regions_of_interest'' \<mapsto> ids)))"

definition cell_30 :: "namespace \<Rightarrow> int list \<Rightarrow> py_error + int list" where
  "cell_30 ns structures_in_section =
     (case ns ''regions'' of
        None \<Rightarrow> Inl NameError
      | Some rs \<Rightarrow> Inr (add_regions rs structures_in_section))"

text \<open>The ids the notebook shows for the five acronyms (output of cell 18).\<close>

definition acronyms :: "string \<rightharpoonup> int" where
  "acronyms = [''GENd'' \<mapsto> 1008, ''GENv'' \<mapsto> 1014, ''LP'' \<mapsto> 218, ''POL'' \<mapsto> 1029, ''APN'' \<mapsto> 215]"

subsection \<open>The projection scale in the words of the specification\<close>

text \<open>
  The scale factor as the specification words it: image physical pixel size over native
  volume resolution, adjusted for the downsample level.
\<close>

definition spec_scale :: "real \<Rightarrow> real \<Rightarrow> nat \<Rightarrow> real" where
  "spec_scale pixel_size volume_resolution downsample = pixel_size / volume_resolution / 2 ^ downsample"

subsection \<open>The structure tree\<close>

text \<open>
  \<^verbatim>\<open>ancestor_ids\<close> follows parent links: the chain of a structure starts with the
  structure itself, and what follows is the chain of its parent.
\<close>

definition chain_closed :: "(int \<rightharpoonup> int list) \<Rightarrow> bool" where
  "chain_closed tree \<longleftrightarrow>
     (\<forall>s chain. tree s = Some chain \<longrightarrow>
        chain \<noteq> [] \<and> hd chain = s \<and> (tl chain \<noteq> [] \<longrightarrow> tree (hd (tl chain)) = Some (tl chain)))"

definition ancestor_of :: "(int \<rightharpoonup> int list) \<Rightarrow> int \<Rightarrow> int \<Rightarrow> bool" where
  "ancestor_of tree a d = (case tree d of None \<Rightarrow> False | Some chain \<Rightarrow> a \<in> set (tl chain))"

definition depth :: "(int \<rightharpoonup> int list) \<Rightarrow> int \<Rightarrow> nat" where
  "depth tree s = (case tree s of None \<Rightarrow> 0 | Some chain \<Rightarrow> length chain)"

subsection \<open>A small notebook\<close>

text \<open>
  Three nested structures 8, 567 and 688 below the root, one voxel that every mask
  contains and that lands on pixel (1, 1) of a three by three section image.
\<close>

definition demo_mask :: "bool array3" where
  "demo_mask = [[[False], [False]], [[False], [True]]]"

definition demo_tree :: "int \<rightharpoonup> int list" where
  "demo_tree = [997 \<mapsto> [997], 8 \<mapsto> [8, 997], 567 \<mapsto> [567, 8, 997], 688 \<mapsto> [688, 567, 8, 997]]"

definition demo_colormap :: "int \<rightharpoonup> int \<times> int \<times> int" where
  "demo_colormap =
     [997 \<mapsto> (255, 255, 255), 8 \<mapsto> (191, 218, 227), 567 \<mapsto> (176, 240, 255), 688 \<mapsto> (176, 255, 184)]"

definition demo_image :: image where
  "demo_image = replicate 3 (replicate 3 (7, 7, 7))"

definition demo_notebook :: notebook where
  "demo_notebook =
     \<lparr>make_structure_mask = (\<lambda>s. demo_mask),
      dfmfld_transform = (\<lambda>p. p),
      aff_trans = (\<lambda>p. p),
      anno = [[[0], [0]], [[0], [688]]],
      ancestor_ids = demo_tree,
      colormap = demo_colormap,
      section_no = 0,
      twoD = 16 / 25,
      arr = demo_image,
      regions = [567],
      alpha_composite = (\<lambda>bg fg. fg)\<rparr>"

definition demo_state :: state where
  "demo_state = \<lparr>tfp = [(25, 25, 0)], loc = [0], area_image = demo_image, boundary_image = demo_image\<rparr>"

definition demo_order :: "int list" where
  "demo_order = [8, 567, 688]"

definition demo_final :: state where
  "demo_final =
     \<lparr>tfp = [(25, 25, 0)], loc = [0],
      area_image = [[(7, 7, 7), (7, 7, 7), (7, 7, 7)],
                    [(7, 7, 7), (176, 255, 184), (7, 7, 7)],
                    [(7, 7, 7), (7, 7, 7), (7, 7, 7)]],
      boundary_image = [[(7, 7, 7), (7, 7, 7), (7, 7, 7)],
                        [(7, 7, 7), (0, 0, 255), (7, 7, 7)],
                        [(7, 7, 7), (7, 7, 7), (7, 7, 7)]]\<rparr>"

definition demo_area :: "int array2" where
  "demo_area = [[0, 0, 0], [0, 1, 0], [0, 0, 0]]"

definition demo_files :: files where
  "demo_files = [section_jpg \<mapsto> RGB demo_image]"

text \<open>
  The same notebook with a requested id that the structure tree does not hold, and with
  another section.
\<close>

definition demo_unknown_notebook :: notebook where
  "demo_unknown_notebook = demo_notebook\<lparr>regions := [1008]\<rparr>"

definition demo_far_notebook :: notebook where
  "demo_far_notebook = demo_notebook\<lparr>section_no := 5\<rparr>"

section \<open>Auxiliary facts\<close>

lemma cell_update_shape:
  "r < length img \<Longrightarrow> length (img[r0 := (img ! r0)[c0 := v]] ! r) = length (img ! r)"
  by (cases "r = r0") simp_all

lemma cell_update_get:
  "r < length img \<Longrightarrow> c < length (img ! r) \<Longrightarrow>
   img[r0 := (img ! r0)[c0 := v]] ! r ! c = (if (r, c) = (r0, c0) then v else img ! r ! c)"
  by (cases "r = r0"; cases "c = c0"; simp)

lemma assign_at_shape:
  "length (assign_at img idx v) = length img \<and>
   (\<forall>r < length img. length (assign_at img idx v ! r) = length (img ! r))"
  unfolding assign_at_def
proof (induction idx arbitrary: img)
  case Nil
  then show ?case by simp
next
  case (Cons p idx)
  obtain r0 c0 where p: "p = (r0, c0)" by (cases p)
  show ?case
    using Cons.IH [of "img[r0 := (img ! r0)[c0 := v]]"]
    by (simp add: p cell_update_shape)
qed

lemma assign_at_get:
  "r < length img \<Longrightarrow> c < length (img ! r) \<Longrightarrow>
   assign_at img idx v ! r ! c = (if (r, c) \<in> set idx then v else img ! r ! c)"
  unfolding assign_at_def
proof (induction idx arbitrary: img)
  case Nil
  then show ?case by simp
next
  case (Cons p idx)
  obtain r0 c0 where p: "p = (r0, c0)" by (cases p)
  let ?img = "img[r0 := (img ! r0)[c0 := v]]"
  have len: "r < length ?img" "c < length (?img ! r)"
    using Cons.prems by (simp_all add: cell_update_shape)
  have here: "?img ! r ! c = (if (r, c) = (r0, c0) then v else img ! r ! c)"
    using Cons.prems by (rule cell_update_get)
  show ?case
    using Cons.IH [OF len] here by (auto simp: p)
qed

lemma select_struct_images:
  "select_struct nb st s = Inr st1 \<Longrightarrow>
   area_image st1 = area_image st \<and> boundary_image st1 = boundary_image st"
  by (auto simp: select_struct_def Let_def split: if_splits sum.splits)

lemma iteration_effect:
  assumes "iteration nb st s = Inr st'"
  shows "\<exists>area color. area_of nb st s = Inr area \<and> colormap nb s = Some color \<and>
     area_image st' = assign_at (area_image st) (where_eq1 area) (to_uint8 color) \<and>
     boundary_image st' =
       (if s \<in> set (regions nb)
        then assign_at (boundary_image st) (where_eq1 (boundary_of area)) (0, 0, 255)
        else boundary_image st)"
proof -
  from assms obtain st1 where s1: "select_struct nb st s = Inr st1"
    by (auto simp: iteration_def split: sum.splits)
  with assms obtain area where ar: "rasterize nb st1 = Inr area"
    by (auto simp: iteration_def split: sum.splits)
  with assms s1 obtain st2 where p: "paint_area nb st1 s area = Inr st2"
    and fin: "st' = draw_boundary nb st2 s area"
    by (auto simp: iteration_def split: sum.splits)
  from p obtain color where col: "colormap nb s = Some color"
    and st2: "st2 = st1\<lparr>area_image := assign_at (area_image st1) (where_eq1 area) (to_uint8 color)\<rparr>"
    by (auto simp: paint_area_def Let_def split: option.splits)
  have "area_of nb st s = Inr area"
    using s1 ar by (simp add: area_of_def)
  moreover have "area_image st' = assign_at (area_image st) (where_eq1 area) (to_uint8 color)"
    using fin st2 select_struct_images [OF s1] by (simp add: draw_boundary_def Let_def)
  moreover have "boundary_image st' =
       (if s \<in> set (regions nb)
        then assign_at (boundary_image st) (where_eq1 (boundary_of area)) (0, 0, 255)
        else boundary_image st)"
    using fin st2 select_struct_images [OF s1] by (simp add: draw_boundary_def Let_def)
  ultimately show ?thesis using col by blast
qed

lemma loop_areas_length:
  "structure_loop nb st order = Inr st' \<Longrightarrow> length (loop_areas nb st order) = length order"
proof (induction order arbitrary: st)
  case Nil
  then show ?case by simp
next
  case (Cons s order)
  from Cons.prems obtain st1 where it: "iteration nb st s = Inr st1"
    and rest: "structure_loop nb st1 order = Inr st'"
    by (auto split: sum.splits)
  from iteration_effect [OF it] obtain area where "area_of nb st s = Inr area" by blast
  with it Cons.IH [OF rest] show ?case by simp
qed

lemma iteration_shape:
  assumes "iteration nb st s = Inr st1" and "r < length (area_image st)"
  shows "length (area_image st1) = length (area_image st) \<and>
         length (area_image st1 ! r) = length (area_image st ! r)"
  using iteration_effect [OF assms(1)] assign_at_shape assms(2) by metis

lemma iteration_shape_boundary:
  assumes "iteration nb st s = Inr st1" and "r < length (boundary_image st)"
  shows "length (boundary_image st1) = length (boundary_image st) \<and>
         length (boundary_image st1 ! r) = length (boundary_image st ! r)"
  using iteration_effect [OF assms(1)] assign_at_shape assms(2) by metis

lemma loop_area_frame:
  "structure_loop nb st order = Inr st' \<Longrightarrow>
   r < length (area_image st) \<Longrightarrow> c < length (area_image st ! r) \<Longrightarrow>
   \<forall>a \<in> set (loop_areas nb st order). (r, c) \<notin> set (where_eq1 a) \<Longrightarrow>
   area_image st' ! r ! c = area_image st ! r ! c"
proof (induction order arbitrary: st)
  case Nil
  then show ?case by simp
next
  case (Cons s order)
  from Cons.prems(1) obtain st1 where it: "iteration nb st s = Inr st1"
    and rest: "structure_loop nb st1 order = Inr st'"
    by (auto split: sum.splits)
  from iteration_effect [OF it] obtain area color where ar: "area_of nb st s = Inr area"
    and img: "area_image st1 = assign_at (area_image st) (where_eq1 area) (to_uint8 color)"
    by blast
  have areas: "loop_areas nb st (s # order) = area # loop_areas nb st1 order"
    using it ar by simp
  have sh: "r < length (area_image st1)" "c < length (area_image st1 ! r)"
    using iteration_shape [OF it Cons.prems(2)] Cons.prems(2,3) by simp_all
  note none = Cons.prems(4) [unfolded areas]
  have "area_image st' ! r ! c = area_image st1 ! r ! c"
    using Cons.IH [OF rest sh] none by simp
  also have "\<dots> = area_image st ! r ! c"
    using Cons.prems(2,3) none by (simp add: img assign_at_get)
  finally show ?case .
qed

lemma loop_boundary_frame:
  "structure_loop nb st order = Inr st' \<Longrightarrow>
   r < length (boundary_image st) \<Longrightarrow> c < length (boundary_image st ! r) \<Longrightarrow>
   \<forall>k < length order. order ! k \<in> set (regions nb) \<longrightarrow>
      (r, c) \<notin> set (where_eq1 (boundary_of (loop_areas nb st order ! k))) \<Longrightarrow>
   boundary_image st' ! r ! c = boundary_image st ! r ! c"
proof (induction order arbitrary: st)
  case Nil
  then show ?case by simp
next
  case (Cons s order)
  from Cons.prems(1) obtain st1 where it: "iteration nb st s = Inr st1"
    and rest: "structure_loop nb st1 order = Inr st'"
    by (auto split: sum.splits)
  from iteration_effect [OF it] obtain area where ar: "area_of nb st s = Inr area"
    and img: "boundary_image st1 =
       (if s \<in> set (regions nb)
        then assign_at (boundary_image st) (where_eq1 (boundary_of area)) (0, 0, 255)
        else boundary_image st)"
    by blast
  have areas: "loop_areas nb st (s # order) = area # loop_areas nb st1 order"
    using it ar by simp
  have sh: "r < length (boundary_image st1)" "c < length (boundary_image st1 ! r)"
    using iteration_shape_boundary [OF it Cons.prems(2)] Cons.prems(2,3) by simp_all
  have tail: "\<forall>k < length order. order ! k \<in> set (regions nb) \<longrightarrow>
      (r, c) \<notin> set (where_eq1 (boundary_of (loop_areas nb st1 order ! k)))"
  proof (intro allI impI)
    fix k assume "k < length order" "order ! k \<in> set (regions nb)"
    then show "(r, c) \<notin> set (where_eq1 (boundary_of (loop_areas nb st1 order ! k)))"
      using Cons.prems(4) [unfolded areas, rule_format, of "Suc k"] by simp
  qed
  have head: "s \<in> set (regions nb) \<longrightarrow> (r, c) \<notin> set (where_eq1 (boundary_of area))"
    using Cons.prems(4) [unfolded areas, rule_format, of 0] by simp
  have "boundary_image st' ! r ! c = boundary_image st1 ! r ! c"
    using Cons.IH [OF rest sh tail] .
  also have "\<dots> = boundary_image st ! r ! c"
    using Cons.prems(2,3) head by (simp add: img assign_at_get)
  finally show ?case .
qed

lemma loop_last_painter:
  "structure_loop nb st order = Inr st' \<Longrightarrow>
   r < length (area_image st) \<Longrightarrow> c < length (area_image st ! r) \<Longrightarrow>
   j < length order \<Longrightarrow>
   (r, c) \<in> set (where_eq1 (loop_areas nb st order ! j)) \<Longrightarrow>
   \<forall>k. j < k \<and> k < length order \<longrightarrow> (r, c) \<notin> set (where_eq1 (loop_areas nb st order ! k)) \<Longrightarrow>
   colormap nb (order ! j) = Some color \<Longrightarrow>
   area_image st' ! r ! c = to_uint8 color"
proof (induction order arbitrary: st j)
  case Nil
  then show ?case by simp
next
  case (Cons s order)
  from Cons.prems(1) obtain st1 where it: "iteration nb st s = Inr st1"
    and rest: "structure_loop nb st1 order = Inr st'"
    by (auto split: sum.splits)
  from iteration_effect [OF it] obtain area color1 where ar: "area_of nb st s = Inr area"
    and col1: "colormap nb s = Some color1"
    and img: "area_image st1 = assign_at (area_image st) (where_eq1 area) (to_uint8 color1)"
    by blast
  have areas: "loop_areas nb st (s # order) = area # loop_areas nb st1 order"
    using it ar by simp
  have sh: "r < length (area_image st1)" "c < length (area_image st1 ! r)"
    using iteration_shape [OF it Cons.prems(2)] Cons.prems(2,3) by simp_all
  have len: "length (loop_areas nb st1 order) = length order"
    using loop_areas_length [OF rest] .
  show ?case
  proof (cases j)
    case 0
    have none: "\<forall>a \<in> set (loop_areas nb st1 order). (r, c) \<notin> set (where_eq1 a)"
    proof
      fix a assume "a \<in> set (loop_areas nb st1 order)"
      then obtain k where k: "k < length order" "a = loop_areas nb st1 order ! k"
        using len by (metis in_set_conv_nth)
      then show "(r, c) \<notin> set (where_eq1 a)"
        using Cons.prems(6) [unfolded areas, rule_format, of "Suc k"] 0 by simp
    qed
    have "area_image st' ! r ! c = area_image st1 ! r ! c"
      using loop_area_frame [OF rest sh none] .
    also have "\<dots> = to_uint8 color1"
      using Cons.prems(2,3) Cons.prems(5) [unfolded areas] 0 by (simp add: img assign_at_get)
    finally show ?thesis
      using Cons.prems(7) col1 0 by simp
  next
    case (Suc j')
    have later: "\<forall>k. j' < k \<and> k < length order \<longrightarrow> (r, c) \<notin> set (where_eq1 (loop_areas nb st1 order ! k))"
    proof (intro allI impI)
      fix k assume "j' < k \<and> k < length order"
      then show "(r, c) \<notin> set (where_eq1 (loop_areas nb st1 order ! k))"
        using Cons.prems(6) [unfolded areas, rule_format, of "Suc k"] Suc by simp
    qed
    show ?thesis
      using Cons.IH [OF rest sh _ _ later] Cons.prems(4,7) Cons.prems(5) [unfolded areas] Suc
      by simp
  qed
qed

lemma ancestor_shorter:
  "chain_closed tree \<Longrightarrow> tree d = Some cd \<Longrightarrow> a \<in> set (tl cd) \<Longrightarrow>
   \<exists>ca. tree a = Some ca \<and> length ca < length cd"
proof (induction "length cd" arbitrary: d cd rule: less_induct)
  case less
  from less.prems(3) have ne: "tl cd \<noteq> []" by auto
  then have cdne: "cd \<noteq> []" by auto
  let ?p = "hd (tl cd)"
  have parent: "tree ?p = Some (tl cd)"
    using less.prems(1,2) ne unfolding chain_closed_def by blast
  have shorter: "length (tl cd) < length cd"
    using cdne by simp
  from less.prems(3) ne have "a = ?p \<or> a \<in> set (tl (tl cd))"
    by (cases "tl cd") auto
  then show ?case
  proof
    assume "a = ?p"
    then show ?thesis using parent shorter by blast
  next
    assume "a \<in> set (tl (tl cd))"
    from less.hyps [OF shorter less.prems(1) parent this]
    obtain ca where "tree a = Some ca" "length ca < length (tl cd)" by blast
    then show ?thesis using shorter by (intro exI [of _ ca]) simp
  qed
qed

lemma ancestor_depth:
  "chain_closed tree \<Longrightarrow> ancestor_of tree a d \<Longrightarrow> depth tree a < depth tree d"
  using ancestor_shorter [of tree d _ a]
  by (fastforce simp: ancestor_of_def depth_def split: option.splits)

lemma ancestor_counts_depth:
  "ancestor_counts tree ss = Inr ns \<Longrightarrow> ns = map (depth tree) ss"
  by (induction ss arbitrary: ns) (auto simp: depth_def split: option.splits sum.splits)

lemma argsort_sorted:
  "sorted (map (\<lambda>i. keys ! i) (argsort keys))"
  unfolding argsort_def by (rule sorted_sort_key)

lemma argsort_set:
  "set (argsort keys) = {0..<length keys}" "length (argsort keys) = length keys"
  unfolding argsort_def by simp_all

lemma sorted_structures_sorted:
  assumes "sorted_structures nb sis = Inr order"
  shows "sorted (map (depth (ancestor_ids nb)) order) \<and> set order = set sis \<and> length order = length sis"
proof -
  from assms obtain counts where c: "ancestor_counts (ancestor_ids nb) sis = Inr counts"
    and o: "order = map (\<lambda>i. sis ! i) (argsort counts)"
    by (auto simp: sorted_structures_def Let_def split: sum.splits)
  have cd: "counts = map (depth (ancestor_ids nb)) sis"
    using ancestor_counts_depth [OF c] .
  then have len: "length counts = length sis" by simp
  have "map (depth (ancestor_ids nb)) order = map (\<lambda>i. counts ! i) (argsort counts)"
    using argsort_set(1) [of counts] len by (auto simp: o cd)
  then have "sorted (map (depth (ancestor_ids nb)) order)"
    using argsort_sorted [of counts] by simp
  moreover have "set order = set sis"
  proof -
    have "set order = (\<lambda>i. sis ! i) ` {0..<length sis}"
      using argsort_set(1) [of counts] len by (simp add: o)
    also have "\<dots> = set sis"
      by (auto simp: set_conv_nth)
    finally show ?thesis .
  qed
  moreover have "length order = length sis"
    using argsort_set(2) [of counts] len by (simp add: o)
  ultimately show ?thesis by blast
qed

lemma loop_colormap:
  "structure_loop nb st order = Inr st' \<Longrightarrow> j < length order \<Longrightarrow>
   colormap nb (order ! j) \<noteq> None"
proof (induction order arbitrary: st j)
  case Nil
  then show ?case by simp
next
  case (Cons s order)
  from Cons.prems(1) obtain st1 where it: "iteration nb st s = Inr st1"
    and rest: "structure_loop nb st1 order = Inr st'"
    by (auto split: sum.splits)
  from iteration_effect [OF it] have "colormap nb s \<noteq> None" by auto
  then show ?case
    using Cons.IH [OF rest] Cons.prems(2) by (cases j) simp_all
qed

lemma where_eq1_iff:
  "(r, c) \<in> set (where_eq1 a) \<longleftrightarrow> r < length a \<and> c < length (a ! r) \<and> a ! r ! c = 1"
  by (auto simp: where_eq1_def)

lemma inner_of_funpow: "inner_of area = (binary_erosion ^^ 6) (as_bool area)"
  by (simp add: inner_of_def upt_rec numeral_eq_Suc)

lemma erosion_shape:
  "length (binary_erosion m) = length m"
  "r < length m \<Longrightarrow> length (binary_erosion m ! r) = length (m ! r)"
  by (simp_all add: binary_erosion_def index_map_shape)

lemma erosions_shape:
  "length ((binary_erosion ^^ n) m) = length m \<and>
   (\<forall>r < length m. length ((binary_erosion ^^ n) m ! r) = length (m ! r))"
  by (induction n) (simp_all add: erosion_shape)

lemma inner_of_shape:
  "length (inner_of area) = length area"
  "r < length area \<Longrightarrow> length (inner_of area ! r) = length (area ! r)"
  using erosions_shape [of 6 "as_bool area"] by (simp_all add: inner_of_funpow as_bool_def)

lemma boundary_of_shape:
  "length (boundary_of area) = length area"
  "r < length area \<Longrightarrow> length (boundary_of area ! r) = length (area ! r)"
  by (simp_all add: boundary_of_def astype_int_def inner_of_shape)

lemma boundary_of_get:
  "r < length area \<Longrightarrow> c < length (area ! r) \<Longrightarrow>
   boundary_of area ! r ! c = area ! r ! c - (if inner_of area ! r ! c then 1 else 0)"
  by (simp add: boundary_of_def astype_int_def inner_of_shape)

lemma rasterize_binary:
  "rasterize nb st = Inr area \<Longrightarrow> r < length area \<Longrightarrow> c < length (area ! r) \<Longrightarrow>
   area ! r ! c = 0 \<or> area ! r ! c = 1"
  by (auto simp: rasterize_def Let_def astype_int_def split: sum.splits)

lemma boundary_mask_iff:
  assumes "rasterize nb st = Inr area"
  shows "(r, c) \<in> set (where_eq1 (boundary_of area)) \<longleftrightarrow>
         (r, c) \<in> set (where_eq1 area) \<and> \<not> inner_of area ! r ! c"
proof (cases "r < length area \<and> c < length (area ! r)")
  case True
  then show ?thesis
    using rasterize_binary [OF assms, of r c]
    by (auto simp: where_eq1_iff boundary_of_shape boundary_of_get)
next
  case False
  then show ?thesis
    by (auto simp: where_eq1_iff boundary_of_shape)
qed

lemma boundary_mask_subset:
  assumes "rasterize nb st = Inr area"
  shows "set (where_eq1 (boundary_of area)) \<subseteq> set (where_eq1 area)"
  using boundary_mask_iff [OF assms] by auto

lemma add_regions_superset:
  "set (add_regions rs sis) = set rs \<union> set sis"
  by (induction rs arbitrary: sis) auto

lemma index_map_lengths: "map length (index_map f m) = map length m"
  by (rule nth_equalityI) (simp_all add: index_map_shape)

lemma flood_step_lengths: "map length (flood_step msk cur) = map length cur"
  by (simp add: flood_step_def index_map_lengths)

lemma flood_lengths: "map length (flood msk cur) = map length cur"
proof (induction msk cur rule: flood.induct)
  case (1 msk cur)
  show ?case
  proof (cases "flood_step msk cur = cur")
    case True
    then show ?thesis using flood.simps [of msk cur] by simp
  next
    case False
    have "flood msk cur = flood msk (flood_step msk cur)"
      using False flood.simps [of msk cur] by simp
    then show ?thesis
      using "1.IH" [OF refl False] by (simp add: flood_step_lengths)
  qed
qed

lemma flood_fixpoint: "flood_step msk (flood msk cur) = flood msk cur"
proof (induction msk cur rule: flood.induct)
  case (1 msk cur)
  show ?case
  proof (cases "flood_step msk cur = cur")
    case True
    then have "flood msk cur = cur" using flood.simps [of msk cur] by simp
    then show ?thesis using True by simp
  next
    case False
    have "flood msk cur = flood msk (flood_step msk cur)"
      using False flood.simps [of msk cur] by simp
    then show ?thesis
      using "1.IH" [OF refl False] by simp
  qed
qed

lemma matrix_eq_replicate:
  assumes "map length m = replicate h w"
    and "\<And>r c. r < h \<Longrightarrow> c < w \<Longrightarrow> m ! r ! c = v"
  shows "m = replicate h (replicate w v)"
proof (rule nth_equalityI)
  show len: "length m = length (replicate h (replicate w v))"
    using assms(1) by (metis length_map length_replicate)
  fix r assume r: "r < length m"
  then have rh: "r < h" using len by simp
  have lr: "length (m ! r) = w"
    using assms(1) r rh by (metis nth_map nth_replicate)
  have "m ! r = replicate w v"
    by (rule nth_equalityI) (simp_all add: lr assms(2) rh)
  then show "m ! r = replicate h (replicate w v) ! r"
    using rh by simp
qed

lemma flood_empty:
  "flood (replicate h (replicate w True)) (replicate h (replicate w False)) =
   replicate h (replicate w True)"
proof -
  let ?M = "replicate h (replicate w True)"
  let ?F = "flood ?M (replicate h (replicate w False))"
  have lens: "map length ?F = replicate h w"
    by (simp add: flood_lengths)
  have len: "length ?F = h"
    using lens by (metis length_map length_replicate)
  have row: "length (?F ! r) = w" if "r < h" for r
    using lens that len by (metis nth_map nth_replicate)
  have fixp: "flood_step ?M ?F = ?F"
    by (rule flood_fixpoint)
  have cell: "?F ! r ! c" if r: "r < h" and c: "c < w" for r c
    using c
  proof (induction c)
    case 0
    have "flood_step ?M ?F ! r ! 0"
      using r 0 len row [OF r]
      by (simp add: flood_step_def index_map_shape dilate_at_def cell_at_def)
    then show ?case using fixp by simp
  next
    case (Suc c)
    then have prev: "?F ! r ! c" by simp
    have "cell_at True ?F (int r) (int (Suc c) - 1)"
      using prev r Suc.prems len row [OF r] by (simp add: cell_at_def)
    then have "flood_step ?M ?F ! r ! Suc c"
      using r Suc.prems len row [OF r]
      by (simp add: flood_step_def index_map_shape dilate_at_def)
    then show ?case using fixp by simp
  qed
  show ?thesis
    by (rule matrix_eq_replicate [OF lens]) (simp add: cell)
qed

lemma fill_holes_empty:
  "binary_fill_holes (replicate h (replicate w False)) = replicate h (replicate w False)"
  by (simp add: binary_fill_holes_def Let_def flood_empty)

lemma cell_at_empty: "cell_at False (replicate h (replicate w False)) r c = False"
proof (cases "0 \<le> r \<and> r < int h")
  case True
  then have "nat r < h" by linarith
  then show ?thesis by (auto simp: cell_at_def)
next
  case False
  then show ?thesis by (auto simp: cell_at_def)
qed

lemma dilation_empty:
  "binary_dilation (replicate h (replicate w False)) = replicate h (replicate w False)"
proof (rule matrix_eq_replicate)
  show "map length (binary_dilation (replicate h (replicate w False))) = replicate h w"
    by (simp add: binary_dilation_def index_map_lengths)
next
  fix r c assume "r < h" "c < w"
  then show "binary_dilation (replicate h (replicate w False)) ! r ! c = False"
    by (simp add: binary_dilation_def index_map_shape dilate_at_def cell_at_empty)
qed

lemma erosion_empty:
  "binary_erosion (replicate h (replicate w False)) = replicate h (replicate w False)"
proof (rule matrix_eq_replicate)
  show "map length (binary_erosion (replicate h (replicate w False))) = replicate h w"
    by (simp add: binary_erosion_def index_map_lengths)
next
  fix r c assume "r < h" "c < w"
  then show "binary_erosion (replicate h (replicate w False)) ! r ! c = False"
    by (simp add: binary_erosion_def index_map_shape erode_at_def cell_at_empty)
qed

lemma closing_empty:
  "binary_closing (replicate h (replicate w False)) = replicate h (replicate w False)"
  by (simp add: binary_closing_def dilation_empty erosion_empty)

lemma where_eq1_zeros: "where_eq1 (replicate h (replicate w 0)) = []"
proof (cases "where_eq1 (replicate h (replicate w 0))")
  case Nil
  then show ?thesis .
next
  case (Cons p ps)
  obtain r c where p: "p = (r, c)" by (cases p)
  have "(r, c) \<in> set (where_eq1 (replicate h (replicate w 0)))"
    using Cons p by simp
  then show ?thesis by (auto simp: where_eq1_iff)
qed

lemma rasterize_empty:
  assumes "tfp st \<noteq> []" and "loc st = []"
  shows "rasterize nb st = Inr (replicate (length (arr nb)) (replicate (shape1 (arr nb)) 0))"
  using assms
  by (simp add: rasterize_def mapped_points_of_def take_rows_def blank_canvas_def as_bool_def
      astype_int_def fill_holes_empty closing_empty)

lemma select_struct_empty:
  assumes "s \<noteq> 997"
    and "where3 (make_structure_mask nb s) \<noteq> []"
    and "\<forall>p \<in> set (transform_points (dfmfld_transform nb) (aff_trans nb) (where3 (make_structure_mask nb s))).
           np_round (snd (snd p) / 100) \<noteq> section_no nb"
  shows "\<exists>t. t \<noteq> [] \<and> select_struct nb st s = Inr (st\<lparr>tfp := t, loc := []\<rparr>)"
proof (intro exI conjI)
  let ?t = "transform_points (dfmfld_transform nb) (aff_trans nb) (where3 (make_structure_mask nb s))"
  have ne: "?t \<noteq> []"
    using assms(2) by (simp add: transform_points_def)
  have "(case ?t ! i of (x, y, z) \<Rightarrow> np_round (z / 100)) \<noteq> section_no nb" if "i < length ?t" for i
  proof -
    have "np_round (snd (snd (?t ! i)) / 100) \<noteq> section_no nb"
      using assms(3) that nth_mem by blast
    then show ?thesis by (simp add: case_prod_beta)
  qed
  then have "where_eq (map (\<lambda>p. case p of (x, y, z) \<Rightarrow> np_round (z / 100)) ?t) (section_no nb) = []"
    by (simp add: where_eq_def filter_empty_conv)
  then have "select_section (section_no nb) ?t = Inr []"
    using ne by (simp add: select_section_def sections_of_def)
  then show "select_struct nb st s = Inr (st\<lparr>tfp := ?t, loc := []\<rparr>)"
    using assms(1) by (simp add: select_struct_def Let_def)
  show "?t \<noteq> []" by (rule ne)
qed

lemma iteration_empty:
  assumes "colormap nb s = Some color"
    and "select_struct nb st s = Inr st1"
    and "tfp st1 \<noteq> []" and "loc st1 = []"
  shows "\<exists>st'. iteration nb st s = Inr st' \<and> area_image st' = area_image st \<and>
           boundary_image st' = boundary_image st"
proof -
  let ?area = "replicate (length (arr nb)) (replicate (shape1 (arr nb)) (0::int))"
  have ras: "rasterize nb st1 = Inr ?area"
    using assms(3,4) by (rule rasterize_empty)
  have b: "where_eq1 (boundary_of ?area) = []"
  proof -
    have "set (where_eq1 (boundary_of ?area)) \<subseteq> set (where_eq1 ?area)"
      using boundary_mask_subset [OF ras] .
    then show ?thesis by (simp add: where_eq1_zeros)
  qed
  show ?thesis
    using assms(1,2) ras b select_struct_images [OF assms(2)]
    by (simp add: iteration_def paint_area_def draw_boundary_def Let_def where_eq1_zeros assign_at_def)
qed

lemma paths_distinct:
  "area_png \<noteq> section_jpg" "boundary_png \<noteq> section_jpg" "color_composite_png \<noteq> section_jpg"
  "area_png \<noteq> boundary_png" "area_png \<noteq> color_composite_png" "boundary_png \<noteq> color_composite_png"
  by (simp_all add: area_png_def boundary_png_def color_composite_png_def section_jpg_def)

lemma save_outputs_result:
  "save_outputs nb writable st fs =
     (if \<not> writable area_png then (fs, Some IOError)
      else if \<not> writable boundary_png then (fs(area_png \<mapsto> RGB (area_image st)), Some IOError)
      else case fs section_jpg of
             Some (RGB cbg) \<Rightarrow>
               if map length cbg \<noteq> map length (area_image st)
               then (fs(area_png \<mapsto> RGB (area_image st), boundary_png \<mapsto> RGB (boundary_image st)),
                     Some ValueError)
               else if \<not> writable color_composite_png
               then (fs(area_png \<mapsto> RGB (area_image st), boundary_png \<mapsto> RGB (boundary_image st)),
                     Some IOError)
               else (fs(area_png \<mapsto> RGB (area_image st), boundary_png \<mapsto> RGB (boundary_image st),
                        color_composite_png \<mapsto>
                          RGBA (alpha_composite nb (putalpha cbg 255) (putalpha (area_image st) 80))),
                     None)
           | _ \<Rightarrow>
               (fs(area_png \<mapsto> RGB (area_image st), boundary_png \<mapsto> RGB (boundary_image st)),
                Some IOError))"
  using paths_distinct
  unfolding save_outputs_def Let_def
  by (auto split: option.splits picture.splits)

lemma demo_chain: "chain_closed demo_tree"
  by (auto simp: chain_closed_def demo_tree_def split: if_splits)

section \<open>The claims\<close>

text \<open>
  C1. A transformed point is selected for the target section exactly when
  \<^verbatim>\<open>np.round\<close> of its depth coordinate over the spacing 100 equals the section index,
  where \<^verbatim>\<open>np.round\<close> gives the nearest integer and resolves a tie to the even
  neighbour. For the depth coordinates 6185.3, 6201.8 and 6250.0 and section 62 the
  claim rejects the third point; the code selects all three, since 62.5 is a tie and
  62 is even.
\<close>

theorem section_selection:
  assumes "select_section n ps = Inr l"
  shows "(i \<in> set l \<longleftrightarrow> i < length ps \<and> np_round (snd (snd (ps ! i)) / 100) = n) \<and>
         \<bar>x - of_int (np_round x)\<bar> \<le> 1 / 2 \<and>
         (\<bar>x - of_int (np_round x)\<bar> = 1 / 2 \<longrightarrow> even (np_round x))"
proof -
  have "i \<in> set l \<longleftrightarrow> i < length ps \<and> np_round (snd (snd (ps ! i)) / 100) = n"
    using assms
    by (auto simp: select_section_def sections_of_def where_eq_def split: if_splits prod.splits)
  moreover have "\<bar>x - of_int (np_round x)\<bar> \<le> 1 / 2 \<and>
      (\<bar>x - of_int (np_round x)\<bar> = 1 / 2 \<longrightarrow> even (np_round x))"
    unfolding np_round_def Let_def by (auto; linarith)
  ultimately show ?thesis by blast
qed

theorem section_selection_witness:
  "select_section 62 [(0, 0, 6185.3), (0, 0, 6201.8), (0, 0, 6250.0)] = Inr [0, 1, 2] \<and>
   ((2::nat) \<in> set [0, 1, 2] \<longleftrightarrow>
      (2::nat) < length [(0::real, 0::real, 6185.3::real), (0, 0, 6201.8), (0, 0, 6250.0)] \<and>
      np_round (snd (snd ([(0::real, 0::real, 6185.3::real), (0, 0, 6201.8), (0, 0, 6250.0)] ! 2)) / 100) = 62) \<and>
   \<bar>125 / 2 - of_int (np_round (125 / 2))\<bar> \<le> (1::real) / 2"
proof -
  have h: "select_section 62 [(0, 0, 6185.3), (0, 0, 6201.8), (0, 0, 6250.0)] = Inr [0, 1, 2]"
    by (simp add: select_section_def sections_of_def where_eq_def np_round_def Let_def upt_rec)
  show ?thesis
    using h section_selection [OF h, of 2 "125 / 2"] by blast
qed

theorem third_point_selected:
  "select_section 62 [(0, 0, 6185.3), (0, 0, 6201.8), (0, 0, 6250.0)] = Inr [0, 1, 2] \<and>
   np_round (6250.0 / 100) = 62"
  by (simp add: select_section_def sections_of_def where_eq_def np_round_def Let_def upt_rec)

text \<open>
  C2. Every selected point is projected by multiplying its transformed (x, y)
  coordinates by one scale factor. The claim gives the factor as image pixel size over
  native volume resolution, adjusted for the downsample level; in the code the factor
  is the reciprocal of the image pixel size divided by \<open>2 ^ 4\<close>, and the volume
  resolution does not enter it.
\<close>

theorem projection_scale:
  assumes "twoD_of resolution = Inr t" and "mapped_points_of t ps l = Inr mps"
  shows "mps = map (\<lambda>i. (fst (ps ! i) * (1 / (resolution * 2 ^ 4)),
                           fst (snd (ps ! i)) * (1 / (resolution * 2 ^ 4)))) l"
  using assms
  by (auto simp: twoD_of_def mapped_points_of_def take_rows_def map_point_def
      split: if_splits prod.splits)

theorem projection_scale_witness:
  "twoD_of (1 / 2) = Inr 2 \<and> mapped_points_of 2 [(16, 32, 6200)] [0] = Inr [(2, 4)] \<and>
   [(2::real, 4::real)] =
     map (\<lambda>i. (fst ([(16::real, 32::real, 6200::real)] ! i) * (1 / ((1 / 2) * 2 ^ 4)),
               fst (snd ([(16::real, 32::real, 6200::real)] ! i)) * (1 / ((1 / 2) * 2 ^ 4)))) [0]"
proof -
  have h1: "twoD_of (1 / 2) = Inr 2"
    by (simp add: twoD_of_def)
  have h2: "mapped_points_of 2 [(16, 32, 6200)] [0] = Inr [(2, 4)]"
    by (simp add: mapped_points_of_def take_rows_def map_point_def)
  show ?thesis
    using h1 h2 projection_scale [OF h1 h2] by blast
qed

theorem projection_scale_counterexample:
  "twoD_of (1 / 2) = Inr 2 \<and> mapped_points_of 2 [(16, 32, 6200)] [0] = Inr [(2, 4)] \<and>
   (16 * spec_scale (1 / 2) 25 4, 32 * spec_scale (1 / 2) 25 4) \<noteq> (2, 4) \<and>
   (16 * (spec_scale (1 / 2) 25 0 * 2 ^ 4), 32 * (spec_scale (1 / 2) 25 0 * 2 ^ 4)) \<noteq> (2, 4)"
  by (simp add: twoD_of_def mapped_points_of_def take_rows_def map_point_def spec_scale_def)

text \<open>
  C3. The claim: the structure set of cell 30 contains every requested region of
  interest. Cell 17 binds the requested ids to the name \<open>regions_of_interest\<close>, and cell
  30 adds the ids under the name \<open>regions\<close>, which no cell binds: run from the top, the
  notebook raises at cell 30 and adds none of the five ids.
\<close>

theorem regions_name_unbound:
  "(case cell_17 acronyms Map.empty of
      Inl e \<Rightarrow> False
    | Inr ns \<Rightarrow> ns ''regions_of_interest'' = Some [1008, 1014, 218, 1029, 215] \<and>
        cell_30 ns structures_in_section = Inl NameError)"
  by (simp add: cell_17_def cell_30_def acronyms_def get_structure_ids_def)

text \<open>
  C4. Structures are rasterized in ascending order of the length of their ancestor
  chain, so an ancestor comes before each of its descendants, whatever the order of
  discovery. A pixel of the descendant's mask that no later structure of the loop
  covers holds the descendant's colour in the final area image. The claim gives the
  pixel the descendant's colour for every ancestor pair; where a third, later structure
  covers the pixel too, the code leaves that structure's colour there.
\<close>

theorem depth_ordered_painting:
  assumes "chain_closed (ancestor_ids nb)"
    and "sorted_structures nb sis = Inr order"
    and "structure_loop nb st order = Inr st'"
    and "i < length order" and "j < length order"
    and "ancestor_of (ancestor_ids nb) (order ! i) (order ! j)"
    and "r < length (area_image st)" and "c < length (area_image st ! r)"
    and "(r, c) \<in> set (where_eq1 (loop_areas nb st order ! j))"
    and "\<forall>k. j < k \<and> k < length order \<longrightarrow> (r, c) \<notin> set (where_eq1 (loop_areas nb st order ! k))"
  shows "sorted (map (depth (ancestor_ids nb)) order) \<and> i < j \<and>
         (\<exists>color. colormap nb (order ! j) = Some color \<and> area_image st' ! r ! c = to_uint8 color)"
proof -
  have srt: "sorted (map (depth (ancestor_ids nb)) order)"
    using sorted_structures_sorted [OF assms(2)] by blast
  have lt: "depth (ancestor_ids nb) (order ! i) < depth (ancestor_ids nb) (order ! j)"
    using ancestor_depth [OF assms(1,6)] .
  have "i < j"
  proof (rule ccontr)
    assume "\<not> i < j"
    then have "j \<le> i" by simp
    then have "map (depth (ancestor_ids nb)) order ! j \<le> map (depth (ancestor_ids nb)) order ! i"
      using srt assms(4) by (simp add: sorted_iff_nth_mono del: nth_map)
    then show False using lt assms(4,5) by simp
  qed
  moreover from loop_colormap [OF assms(3,5)] obtain color
    where col: "colormap nb (order ! j) = Some color" by (cases "colormap nb (order ! j)") auto
  moreover have "area_image st' ! r ! c = to_uint8 color"
    using loop_last_painter [OF assms(3,7,8,5,9,10) col] .
  ultimately show ?thesis using srt by blast
qed

theorem depth_ordered_painting_witness:
  "chain_closed (ancestor_ids demo_notebook) \<and>
   sorted_structures demo_notebook [688, 567, 8] = Inr demo_order \<and>
   structure_loop demo_notebook demo_state demo_order = Inr demo_final \<and>
   ancestor_of (ancestor_ids demo_notebook) (demo_order ! 0) (demo_order ! 2) \<and>
   (1, 1) \<in> set (where_eq1 (loop_areas demo_notebook demo_state demo_order ! 2)) \<and>
   sorted (map (depth (ancestor_ids demo_notebook)) demo_order) \<and> (0::nat) < 2 \<and>
   (\<exists>color. colormap demo_notebook (demo_order ! 2) = Some color \<and>
      area_image demo_final ! 1 ! 1 = to_uint8 color)"
proof -
  have h1: "chain_closed (ancestor_ids demo_notebook)"
    using demo_chain by (simp add: demo_notebook_def)
  have h2: "sorted_structures demo_notebook [688, 567, 8] = Inr demo_order"
    by code_simp
  have h3: "structure_loop demo_notebook demo_state demo_order = Inr demo_final"
    by code_simp
  have h4: "0 < length demo_order" "2 < length demo_order"
    by (simp_all add: demo_order_def)
  have h5: "ancestor_of (ancestor_ids demo_notebook) (demo_order ! 0) (demo_order ! 2)"
    by code_simp
  have h6: "1 < length (area_image demo_state)" "1 < length (area_image demo_state ! 1)"
    by (simp_all add: demo_state_def demo_image_def)
  have h7: "(1, 1) \<in> set (where_eq1 (loop_areas demo_notebook demo_state demo_order ! 2))"
    by code_simp
  have len: "length demo_order = 3"
    by (simp add: demo_order_def)
  have h8: "\<forall>k. 2 < k \<and> k < length demo_order \<longrightarrow>
      (1, 1) \<notin> set (where_eq1 (loop_areas demo_notebook demo_state demo_order ! k))"
    unfolding len by auto
  show ?thesis
    using h1 h2 h3 h5 h7 depth_ordered_painting [OF h1 h2 h3 h4 h5 h6 h7 h8] by blast
qed

theorem third_structure_counterexample:
  "sorted_structures demo_notebook [688, 567, 8] = Inr demo_order \<and>
   ancestor_of (ancestor_ids demo_notebook) (demo_order ! 0) (demo_order ! 1) \<and>
   (1, 1) \<in> set (where_eq1 (loop_areas demo_notebook demo_state demo_order ! 0)) \<and>
   (1, 1) \<in> set (where_eq1 (loop_areas demo_notebook demo_state demo_order ! 1)) \<and>
   (case (structure_loop demo_notebook demo_state demo_order, colormap demo_notebook (demo_order ! 1)) of
      (Inr st', Some color) \<Rightarrow> area_image st' ! 1 ! 1 \<noteq> to_uint8 color
    | _ \<Rightarrow> False)"
  by code_simp


text \<open>
  C6. For every rasterized area mask the boundary mask, the area minus its erosion
  repeated six times, lies inside the area mask: a pixel is in the boundary mask
  exactly when it is in the area mask and not in the six-fold erosion.
\<close>

theorem boundary_contained_in_area:
  assumes "rasterize nb st = Inr area"
  shows "set (where_eq1 (boundary_of area)) \<subseteq> set (where_eq1 area) \<and>
         inner_of area = (binary_erosion ^^ 6) (as_bool area) \<and>
         (\<forall>r c. (r, c) \<in> set (where_eq1 (boundary_of area)) \<longleftrightarrow>
            (r, c) \<in> set (where_eq1 area) \<and> \<not> inner_of area ! r ! c)"
  using boundary_mask_subset [OF assms] boundary_mask_iff [OF assms] inner_of_funpow
  by blast

theorem boundary_contained_in_area_witness:
  "rasterize demo_notebook demo_state = Inr demo_area \<and>
   where_eq1 demo_area = [(1, 1)] \<and>
   set (where_eq1 (boundary_of demo_area)) \<subseteq> set (where_eq1 demo_area) \<and>
   inner_of demo_area = (binary_erosion ^^ 6) (as_bool demo_area)"
proof -
  have h: "rasterize demo_notebook demo_state = Inr demo_area"
    by code_simp
  have a: "where_eq1 demo_area = [(1, 1)]"
    by code_simp
  show ?thesis
    using h a boundary_contained_in_area [OF h] by blast
qed

text \<open>
  C7. A requested region of the atlas (cell 11 keeps only structures with a voxel in
  the annotation, so the region has an entry in the colormap and its mask has a voxel)
  none of whose voxels lands on the target section is rasterized without an exception
  and leaves the area and boundary images as they were. For a region other than the
  root the selection is that of its own mask; the root takes the selection left in
  \<open>tfp\<close> and \<open>loc\<close>.
\<close>

theorem empty_region_paints_nothing:
  assumes "colormap nb s = Some color"
  shows "(s \<noteq> 997 \<and> where3 (make_structure_mask nb s) \<noteq> [] \<and>
          (\<forall>p \<in> set (transform_points (dfmfld_transform nb) (aff_trans nb)
                       (where3 (make_structure_mask nb s))).
             np_round (snd (snd p) / 100) \<noteq> section_no nb) \<longrightarrow>
          (\<exists>st'. iteration nb st s = Inr st' \<and> area_image st' = area_image st \<and>
             boundary_image st' = boundary_image st)) \<and>
         (s = 997 \<and> tfp st \<noteq> [] \<and> loc st = [] \<longrightarrow>
          (\<exists>st'. iteration nb st s = Inr st' \<and> area_image st' = area_image st \<and>
             boundary_image st' = boundary_image st))"
proof (intro conjI impI)
  assume a: "s \<noteq> 997 \<and> where3 (make_structure_mask nb s) \<noteq> [] \<and>
          (\<forall>p \<in> set (transform_points (dfmfld_transform nb) (aff_trans nb)
                       (where3 (make_structure_mask nb s))).
             np_round (snd (snd p) / 100) \<noteq> section_no nb)"
  then obtain t where t: "t \<noteq> []"
    and sel: "select_struct nb st s = Inr (st\<lparr>tfp := t, loc := []\<rparr>)"
    using select_struct_empty [of s nb st] by blast
  show "\<exists>st'. iteration nb st s = Inr st' \<and> area_image st' = area_image st \<and>
             boundary_image st' = boundary_image st"
    using iteration_empty [OF assms sel] t by simp
next
  assume a: "s = 997 \<and> tfp st \<noteq> [] \<and> loc st = []"
  then have sel: "select_struct nb st s = Inr st"
    by (simp add: select_struct_def)
  show "\<exists>st'. iteration nb st s = Inr st' \<and> area_image st' = area_image st \<and>
             boundary_image st' = boundary_image st"
    using iteration_empty [OF assms sel] a by simp
qed

theorem empty_region_paints_nothing_witness:
  "colormap demo_far_notebook 567 = Some (176, 240, 255) \<and>
   (567::int) \<noteq> 997 \<and> where3 (make_structure_mask demo_far_notebook 567) = [(1, 1, 0)] \<and>
   transform_points (dfmfld_transform demo_far_notebook) (aff_trans demo_far_notebook)
     (where3 (make_structure_mask demo_far_notebook 567)) = [(25, 25, 0)] \<and>
   np_round (0 / 100) \<noteq> section_no demo_far_notebook \<and>
   (\<exists>st'. iteration demo_far_notebook demo_state 567 = Inr st' \<and>
      area_image st' = area_image demo_state \<and> boundary_image st' = boundary_image demo_state) \<and>
   colormap demo_far_notebook 997 = Some (255, 255, 255) \<and>
   tfp (demo_state\<lparr>loc := []\<rparr>) \<noteq> [] \<and> loc (demo_state\<lparr>loc := []\<rparr>) = [] \<and>
   (\<exists>st'. iteration demo_far_notebook (demo_state\<lparr>loc := []\<rparr>) 997 = Inr st' \<and>
      area_image st' = area_image (demo_state\<lparr>loc := []\<rparr>) \<and>
      boundary_image st' = boundary_image (demo_state\<lparr>loc := []\<rparr>))"
proof -
  have h1: "colormap demo_far_notebook 567 = Some (176, 240, 255)"
    by code_simp
  have w: "where3 (make_structure_mask demo_far_notebook 567) = [(1, 1, 0)]"
    by code_simp
  have t: "transform_points (dfmfld_transform demo_far_notebook) (aff_trans demo_far_notebook)
     (where3 (make_structure_mask demo_far_notebook 567)) = [(25, 25, 0)]"
    by code_simp
  have n: "np_round (0 / 100) \<noteq> section_no demo_far_notebook"
    by code_simp
  have h2: "(567::int) \<noteq> 997 \<and> where3 (make_structure_mask demo_far_notebook 567) \<noteq> [] \<and>
   (\<forall>p \<in> set (transform_points (dfmfld_transform demo_far_notebook) (aff_trans demo_far_notebook)
                (where3 (make_structure_mask demo_far_notebook 567))).
      np_round (snd (snd p) / 100) \<noteq> section_no demo_far_notebook)"
    using n unfolding t by (simp add: w)
  have h3: "colormap demo_far_notebook 997 = Some (255, 255, 255)"
    by code_simp
  have h4: "(997::int) = 997 \<and> tfp (demo_state\<lparr>loc := []\<rparr>) \<noteq> [] \<and> loc (demo_state\<lparr>loc := []\<rparr>) = []"
    by (simp add: demo_state_def)
  show ?thesis
    using h1 h2 h3 h4 w t n
      empty_region_paints_nothing [OF h1, of demo_state]
      empty_region_paints_nothing [OF h3, of "demo_state\<lparr>loc := []\<rparr>"]
    by blast
qed

text \<open>
  C9. The three output files are saved one after another, with nothing undone on a
  failure. A failure before the first save leaves the files as they were. Once the
  save of the area image has succeeded, \<open>area.png\<close> holds the area image, also when
  the save of the boundary image fails; once that save has succeeded too,
  \<open>boundary.png\<close> holds the boundary image, also when the composite fails. A run
  without a failure leaves all three, the composite made from the section image and
  the area image. The claim has the three files saved together or not at all.
\<close>

theorem outputs_saved_in_sequence:
  assumes "run nb writable fs = (fs', res)"
  shows "(\<forall>e. map_structures nb = Inl e \<longrightarrow> fs' = fs \<and> res = Some e) \<and>
         (\<forall>st. map_structures nb = Inr st \<longrightarrow>
            (\<not> writable area_png \<longrightarrow> fs' = fs \<and> res = Some IOError) \<and>
            (writable area_png \<and> \<not> writable boundary_png \<longrightarrow>
               fs' = fs(area_png \<mapsto> RGB (area_image st)) \<and> res = Some IOError) \<and>
            (writable area_png \<and> writable boundary_png \<and> res \<noteq> None \<longrightarrow>
               fs' = fs(area_png \<mapsto> RGB (area_image st), boundary_png \<mapsto> RGB (boundary_image st))) \<and>
            (writable area_png \<and> writable boundary_png \<and> res = None \<longrightarrow>
               writable color_composite_png \<and>
               (\<exists>cbg. fs section_jpg = Some (RGB cbg) \<and>
                  fs' = fs(area_png \<mapsto> RGB (area_image st), boundary_png \<mapsto> RGB (boundary_image st),
                          color_composite_png \<mapsto>
                            RGBA (alpha_composite nb (putalpha cbg 255) (putalpha (area_image st) 80))))))"
proof (cases "map_structures nb")
  case (Inl e)
  then show ?thesis using assms by (simp add: run_def)
next
  case (Inr st)
  then have "save_outputs nb writable st fs = (fs', res)"
    using assms by (simp add: run_def)
  then show ?thesis
    unfolding save_outputs_result using Inr
    by (auto split: if_splits option.splits picture.splits)
qed

theorem outputs_saved_in_sequence_witness:
  "map_structures demo_unknown_notebook = Inl KeyError \<and>
   run demo_unknown_notebook (\<lambda>p. True) demo_files = (demo_files, Some KeyError) \<and>
   map_structures demo_notebook = Inr demo_final \<and>
   run demo_notebook (\<lambda>p. p = area_png) demo_files =
     (demo_files(area_png \<mapsto> RGB (area_image demo_final)), Some IOError) \<and>
   run demo_notebook (\<lambda>p. p \<noteq> color_composite_png) demo_files =
     (demo_files(area_png \<mapsto> RGB (area_image demo_final),
        boundary_png \<mapsto> RGB (boundary_image demo_final)), Some IOError) \<and>
   run demo_notebook (\<lambda>p. True) demo_files =
     (demo_files(area_png \<mapsto> RGB (area_image demo_final),
        boundary_png \<mapsto> RGB (boundary_image demo_final),
        color_composite_png \<mapsto>
          RGBA (alpha_composite demo_notebook (putalpha demo_image 255)
                  (putalpha (area_image demo_final) 80))), None)"
proof -
  have u: "map_structures demo_unknown_notebook = Inl KeyError"
    by code_simp
  have m: "map_structures demo_notebook = Inr demo_final"
    by code_simp
  have jpg: "demo_files section_jpg = Some (RGB demo_image)"
    by (simp add: demo_files_def)
  have r0: "run demo_unknown_notebook (\<lambda>p. True) demo_files =
      (fst (run demo_unknown_notebook (\<lambda>p. True) demo_files),
       snd (run demo_unknown_notebook (\<lambda>p. True) demo_files))"
    by simp
  have c0: "run demo_unknown_notebook (\<lambda>p. True) demo_files = (demo_files, Some KeyError)"
    using outputs_saved_in_sequence [OF r0] u by (metis prod.collapse)
  have r1: "run demo_notebook (\<lambda>p. p = area_png) demo_files =
      (fst (run demo_notebook (\<lambda>p. p = area_png) demo_files),
       snd (run demo_notebook (\<lambda>p. p = area_png) demo_files))"
    by simp
  have w1: "area_png = area_png \<and> \<not> boundary_png = area_png"
    using paths_distinct(4) by auto
  have c1: "run demo_notebook (\<lambda>p. p = area_png) demo_files =
      (demo_files(area_png \<mapsto> RGB (area_image demo_final)), Some IOError)"
    using outputs_saved_in_sequence [OF r1] m w1 by (metis prod.collapse)
  have r2: "run demo_notebook (\<lambda>p. p \<noteq> color_composite_png) demo_files =
      (fst (run demo_notebook (\<lambda>p. p \<noteq> color_composite_png) demo_files),
       snd (run demo_notebook (\<lambda>p. p \<noteq> color_composite_png) demo_files))"
    by simp
  have w2: "area_png \<noteq> color_composite_png \<and> boundary_png \<noteq> color_composite_png"
    using paths_distinct(5,6) by auto
  have f2: "snd (run demo_notebook (\<lambda>p. p \<noteq> color_composite_png) demo_files) = Some IOError"
    by code_simp
  have c2: "run demo_notebook (\<lambda>p. p \<noteq> color_composite_png) demo_files =
      (demo_files(area_png \<mapsto> RGB (area_image demo_final),
         boundary_png \<mapsto> RGB (boundary_image demo_final)), Some IOError)"
  proof -
    have "fst (run demo_notebook (\<lambda>p. p \<noteq> color_composite_png) demo_files) =
        demo_files(area_png \<mapsto> RGB (area_image demo_final),
          boundary_png \<mapsto> RGB (boundary_image demo_final))"
      using outputs_saved_in_sequence [OF r2] m w2 f2 by simp
    then show ?thesis using f2 by (metis prod.collapse)
  qed
  have r3: "run demo_notebook (\<lambda>p. True) demo_files =
      (fst (run demo_notebook (\<lambda>p. True) demo_files), snd (run demo_notebook (\<lambda>p. True) demo_files))"
    by simp
  have f3: "snd (run demo_notebook (\<lambda>p. True) demo_files) = None"
    by code_simp
  have c3: "run demo_notebook (\<lambda>p. True) demo_files =
      (demo_files(area_png \<mapsto> RGB (area_image demo_final),
         boundary_png \<mapsto> RGB (boundary_image demo_final),
         color_composite_png \<mapsto>
           RGBA (alpha_composite demo_notebook (putalpha demo_image 255)
                   (putalpha (area_image demo_final) 80))), None)"
  proof -
    have "fst (run demo_notebook (\<lambda>p. True) demo_files) =
        demo_files(area_png \<mapsto> RGB (area_image demo_final),
          boundary_png \<mapsto> RGB (boundary_image demo_final),
          color_composite_png \<mapsto>
            RGBA (alpha_composite demo_notebook (putalpha demo_image 255)
                    (putalpha (area_image demo_final) 80)))"
      using outputs_saved_in_sequence [OF r3] m f3 jpg by simp
    then show ?thesis using f3 by (metis prod.collapse)
  qed
  show ?thesis
    using u c0 m c1 c2 c3 by (intro conjI)
qed

theorem partial_outputs_counterexample:
  "(case run demo_notebook (\<lambda>p. p = area_png) demo_files of
      (fs', res) \<Rightarrow> res = Some IOError \<and> fs' area_png \<noteq> None \<and> fs' boundary_png = None \<and>
         fs' color_composite_png = None)"
  by code_simp

text \<open>
  C10. The area image and the boundary image start as copies of the section image.
  After the structure loop a pixel outside every rasterized area mask has its value of
  the section image in the area image, and a pixel outside the boundary mask of every
  structure listed in \<open>regions\<close> has its value of the section image in the boundary image.
\<close>

theorem frame_property:
  assumes "structure_loop nb \<lparr>tfp = t, loc = l, area_image = arr nb, boundary_image = arr nb\<rparr> order
             = Inr st'"
    and "r < length (arr nb)" and "c < length (arr nb ! r)"
  shows "((\<forall>a \<in> set (loop_areas nb \<lparr>tfp = t, loc = l, area_image = arr nb, boundary_image = arr nb\<rparr> order).
             (r, c) \<notin> set (where_eq1 a)) \<longrightarrow>
          area_image st' ! r ! c = arr nb ! r ! c) \<and>
         ((\<forall>k < length order. order ! k \<in> set (regions nb) \<longrightarrow>
             (r, c) \<notin> set (where_eq1 (boundary_of
                (loop_areas nb \<lparr>tfp = t, loc = l, area_image = arr nb, boundary_image = arr nb\<rparr> order ! k)))) \<longrightarrow>
          boundary_image st' ! r ! c = arr nb ! r ! c)"
proof -
  let ?st = "\<lparr>tfp = t, loc = l, area_image = arr nb, boundary_image = arr nb\<rparr>"
  have a: "r < length (area_image ?st)" "c < length (area_image ?st ! r)"
    using assms(2,3) by simp_all
  have b: "r < length (boundary_image ?st)" "c < length (boundary_image ?st ! r)"
    using assms(2,3) by simp_all
  show ?thesis
    using loop_area_frame [OF assms(1) a] loop_boundary_frame [OF assms(1) b] by simp
qed

theorem frame_property_witness:
  "structure_loop demo_notebook
      \<lparr>tfp = [(25, 25, 0)], loc = [0], area_image = arr demo_notebook, boundary_image = arr demo_notebook\<rparr>
      demo_order = Inr demo_final \<and>
   loop_areas demo_notebook
      \<lparr>tfp = [(25, 25, 0)], loc = [0], area_image = arr demo_notebook, boundary_image = arr demo_notebook\<rparr>
      demo_order = [demo_area, demo_area, demo_area] \<and>
   where_eq1 demo_area = [(1, 1)] \<and> where_eq1 (boundary_of demo_area) = [(1, 1)] \<and>
   area_image demo_final ! 0 ! 2 = arr demo_notebook ! 0 ! 2 \<and>
   boundary_image demo_final ! 0 ! 2 = arr demo_notebook ! 0 ! 2"
proof -
  let ?st = "\<lparr>tfp = [(25, 25, 0)], loc = [0], area_image = arr demo_notebook,
              boundary_image = arr demo_notebook\<rparr>"
  have h1: "structure_loop demo_notebook ?st demo_order = Inr demo_final"
    by code_simp
  have h2: "0 < length (arr demo_notebook)" "2 < length (arr demo_notebook ! 0)"
    by (simp_all add: demo_notebook_def demo_image_def)
  have areas: "loop_areas demo_notebook ?st demo_order = [demo_area, demo_area, demo_area]"
    by code_simp
  have wa: "where_eq1 demo_area = [(1, 1)]"
    by code_simp
  have wb: "where_eq1 (boundary_of demo_area) = [(1, 1)]"
    by code_simp
  have h3: "\<forall>a \<in> set (loop_areas demo_notebook ?st demo_order). (0, 2) \<notin> set (where_eq1 a)"
    unfolding areas by (simp add: wa)
  have h4: "\<forall>k < length demo_order. demo_order ! k \<in> set (regions demo_notebook) \<longrightarrow>
      (0, 2) \<notin> set (where_eq1 (boundary_of (loop_areas demo_notebook ?st demo_order ! k)))"
  proof (intro allI impI)
    fix k assume "k < length demo_order"
    then have "k < 3" by (simp add: demo_order_def)
    then have "k = 0 \<or> k = 1 \<or> k = 2" by linarith
    then have "[demo_area, demo_area, demo_area] ! k = demo_area"
      by (auto simp: numeral_2_eq_2)
    then show "(0, 2) \<notin> set (where_eq1 (boundary_of (loop_areas demo_notebook ?st demo_order ! k)))"
      unfolding areas by (simp add: wb)
  qed
  show ?thesis
    using h1 areas wa wb h3 h4 frame_property [OF h1 h2] by blast
qed

end
